theory Spec2Isabelle
  imports Main "HOL-Library.Sublist"
begin

section \<open>The GitHub replicator of \<^verbatim>\<open>October_2025/github_replicator.py\<close>\<close>

text \<open>
  The script copies a folder of a hosted repository to another folder of the same
  repository through the contents API: it lists a folder, fetches every file, passes the
  text through a table of literal substitutions and creates the file under the target
  folder; subfolders are walked recursively.

  Python strings are modelled as lists of characters. The functions on strings below are
  polymorphic in the character type where the source does not mention a literal, so what
  is proved of them does not depend on how a code point is represented.
\<close>

subsection \<open>\<^verbatim>\<open>str.replace\<close>\<close>

text \<open>
  \<^verbatim>\<open>s.replace(old, new)\<close> scans \<open>s\<close> from the left; at every occurrence of
  \<open>old\<close> it writes \<open>new\<close> and goes on behind the occurrence, so the occurrences
  replaced do not overlap. For the empty pattern Python writes \<open>new\<close> in front of every
  character and once more at the end.
\<close>

function replace_nonempty :: "'a list \<Rightarrow> 'a list \<Rightarrow> 'a list \<Rightarrow> 'a list" where
  "replace_nonempty old new [] = []"
| "replace_nonempty old new (c # cs) =
     (if old \<noteq> [] \<and> prefix old (c # cs)
      then new @ replace_nonempty old new (drop (length old) (c # cs))
      else c # replace_nonempty old new cs)"
  by pat_completeness auto
termination
  by (relation "measure (\<lambda>(old, new, s). length s)") auto

definition py_replace :: "'a list \<Rightarrow> 'a list \<Rightarrow> 'a list \<Rightarrow> 'a list" where
  "py_replace s old new =
     (if old = [] then new @ concat (map (\<lambda>c. c # new) s)
      else replace_nonempty old new s)"

text \<open>\<^verbatim>\<open>sub in s\<close> on strings: \<open>sub\<close> occurs somewhere in \<open>s\<close>.\<close>

fun py_in :: "'a list \<Rightarrow> 'a list \<Rightarrow> bool" where
  "py_in sub [] = (sub = [])"
| "py_in sub (c # cs) = (prefix sub (c # cs) \<or> py_in sub cs)"

subsection \<open>The rewrite step\<close>

text \<open>
  The dictionary \<^verbatim>\<open>replacements\<close> of \<^verbatim>\<open>update_content_references\<close>, in the order
  of its literal: a Python dictionary is iterated in insertion order, and the eight keys
  are distinct.
\<close>

definition replacements :: "(string \<times> string) list" where
  "replacements =
     [(''Nav_Oct_2025'', ''Nav_Oct_2025''),
      (''October_2025'', ''October_2025''),
      (''October'', ''October''),
      (''october'', ''october''),
      (''Oct'', ''Oct''),
      (''oct'', ''oct''),
      (''2025-10'', ''2025-10''),
      (''10/2025'', ''10/2025'')]"

text \<open>
  The loop \<^verbatim>\<open>for old, new in replacements.items(): updated_content =
  updated_content.replace(old, new)\<close>, for any table.
\<close>

fun apply_replacements :: "('a list \<times> 'a list) list \<Rightarrow> 'a list \<Rightarrow> 'a list" where
  "apply_replacements [] updated_content = updated_content"
| "apply_replacements ((old, new) # rest) updated_content =
     apply_replacements rest (py_replace updated_content old new)"

definition update_content_references :: "string \<Rightarrow> string" where
  "update_content_references content = apply_replacements replacements content"

text \<open>
  The hypothesis the specification puts on a table: no replacement value contains a
  find-pattern that stands earlier in the table. \<open>earlier\<close> holds the find-patterns
  already passed.
\<close>

fun no_earlier_pattern :: "'a list list \<Rightarrow> ('a list \<times> 'a list) list \<Rightarrow> bool" where
  "no_earlier_pattern earlier [] = True"
| "no_earlier_pattern earlier ((old, new) # rest) =
     (list_all (\<lambda>p. \<not> py_in p new) earlier \<and> no_earlier_pattern (earlier @ [old]) rest)"

subsection \<open>The remote store\<close>

text \<open>
  An entry of a directory listing: the keys \<^verbatim>\<open>'name'\<close>, \<^verbatim>\<open>'path'\<close> and
  \<^verbatim>\<open>'type'\<close> of the dictionaries the contents API returns. The type stays a string,
  as the source compares it with \<^verbatim>\<open>'file'\<close> and \<^verbatim>\<open>'dir'\<close> and passes over
  anything else.
\<close>

record item =
  item_name :: string
  item_path :: string
  item_type :: string

text \<open>
  The exceptions that reading the body of a file can raise: a key that the JSON object
  does not have, base64 data that is malformed, bytes that are not UTF-8.
\<close>

datatype error = KeyError string | Binascii_Error | UnicodeDecodeError

text \<open>
  What the script reads of an HTTP response: the status code and the JSON body, the body
  read as a listing by \<^verbatim>\<open>get_folder_contents\<close> and as a file by
  \<^verbatim>\<open>get_file_content\<close>. \<open>json_content\<close> is what
  \<^verbatim>\<open>base64.b64decode(file_data['content']).decode('utf-8')\<close> evaluates to on the body: the
  text of the file, or the exception raised when the body has no \<^verbatim>\<open>'content'\<close> or its
  bytes cannot be decoded. \<open>json_sha\<close> is what \<^verbatim>\<open>file_data['sha']\<close> evaluates to. The
  transport encoding itself is not modelled.
\<close>

record response =
  status_code :: nat
  json_items :: "item list"
  json_content :: "error + string"
  json_sha :: "error + string"

text \<open>
  The hosting service is a black box with a state \<open>'w\<close> of its own:
  \<^verbatim>\<open>requests.get(url, headers)\<close> and \<^verbatim>\<open>requests.put(url, json, headers)\<close> answer
  from the state and may change it. The JSON of a PUT is the commit message and the
  content.
\<close>

record 'w requests =
  requests_get :: "string \<Rightarrow> (string \<times> string) list \<Rightarrow> 'w \<Rightarrow> response \<times> 'w"
  requests_put :: "string \<Rightarrow> string \<times> string \<Rightarrow> (string \<times> string) list \<Rightarrow> 'w \<Rightarrow> response \<times> 'w"

text \<open>The fields of a \<^verbatim>\<open>GitHubReplicator\<close> that its methods read.\<close>

record self =
  headers :: "(string \<times> string) list"
  base_url :: string

subsection \<open>What a run does\<close>

text \<open>
  The lines a run prints, one constructor for each \<^verbatim>\<open>print\<close> of the methods modelled,
  with the values the f-string interpolates.
\<close>

datatype message =
    Error_fetching string nat
  | Path_not_found string
  | Error_fetching_file string nat
  | Created string
  | Error_creating string nat
  | Starting_replication string string
  | No_contents_found string
  | Processing string
  | Processing_directory string
  | Completed nat nat

text \<open>
  The record of a run: what it printed, and each call of a method of the client with its
  arguments and what it returned, or the exception it raised. An invocation of
  \<^verbatim>\<open>replicate_folder\<close> is one event of its caller and holds the events of the invocation,
  so the events of one level are the members of one list.
\<close>

datatype event =
    Print message
  | Get_folder_contents string "item list"
  | Get_file_content string "error + string \<times> string"
  | Create_file string string string bool
  | Replicate_folder string string "event list"

subsection \<open>The client\<close>

definition get_folder_contents ::
  "self \<Rightarrow> 'w requests \<Rightarrow> string \<Rightarrow> 'w \<Rightarrow> item list \<times> event list \<times> 'w" where
  "get_folder_contents self rq path w =
     (let url = base_url self @ ''/contents/'' @ path;
          (response, w') = requests_get rq url (headers self) w
      in if status_code response = 200
         then (json_items response, [Get_folder_contents path (json_items response)], w')
         else ([],
               [Get_folder_contents path [], Print (Error_fetching path (status_code response))]
                 @ (if status_code response = 404 then [Print (Path_not_found path)] else []),
               w'))"

text \<open>
  \<^verbatim>\<open>get_file_content\<close> returns the content and the SHA, or raises: on a 200 the content
  is decoded first and the SHA is read second, and an exception of either leaves the method.
\<close>

definition get_file_content ::
  "self \<Rightarrow> 'w requests \<Rightarrow> string \<Rightarrow> 'w \<Rightarrow> (error + string \<times> string) \<times> event list \<times> 'w" where
  "get_file_content self rq path w =
     (let url = base_url self @ ''/contents/'' @ path;
          (response, w') = requests_get rq url (headers self) w
      in if status_code response = 200
         then (case json_content response of
                 Inl e \<Rightarrow> (Inl e, [Get_file_content path (Inl e)], w')
               | Inr content \<Rightarrow>
                   (case json_sha response of
                      Inl e \<Rightarrow> (Inl e, [Get_file_content path (Inl e)], w')
                    | Inr sha \<Rightarrow>
                        (Inr (content, sha), [Get_file_content path (Inr (content, sha))], w')))
         else (Inr ('''', ''''),
               [Get_file_content path (Inr ('''', '''')),
                Print (Error_fetching_file path (status_code response))],
               w'))"

definition create_file ::
  "self \<Rightarrow> 'w requests \<Rightarrow> string \<Rightarrow> string \<Rightarrow> string \<Rightarrow> 'w \<Rightarrow> bool \<times> event list \<times> 'w" where
  "create_file self rq path content message w =
     (let url = base_url self @ ''/contents/'' @ path;
          data = (message, content);
          (response, w') = requests_put rq url data (headers self) w
      in if status_code response = 201
         then (True, [Create_file path content message True, Print (Created path)], w')
         else (False,
               [Create_file path content message False,
                Print (Error_creating path (status_code response))],
               w'))"

subsection \<open>The walk\<close>

text \<open>The commit message, the f-string that \<^verbatim>\<open>replicate_folder\<close> passes on.\<close>

definition commit_message :: "string \<Rightarrow> string \<Rightarrow> string" where
  "commit_message source_folder target_folder =
     ''chore: replicate '' @ source_folder @ '' structure for '' @ target_folder"

text \<open>
  The \<^verbatim>\<open>if item['type'] == 'file': ... elif item['type'] == 'dir': ...\<close> of the loop
  body, from the counters it is reached with to the counters it leaves. The counters are
  Python integers that start at 0 and are only incremented, so natural numbers.
  \<open>recurse\<close> stands for the recursive call \<^verbatim>\<open>self.replicate_folder\<close>.

  The branch has three outcomes. \<open>Some (Inr counts, evs, w)\<close>: it is passed, with these
  counters. \<open>Some (Inl e, evs, w)\<close>: the fetch, or the recursive call, raised \<open>e\<close>;
  nothing in \<^verbatim>\<open>replicate_folder\<close> catches an exception, so it leaves the loop and the
  invocation, and every invocation above it. \<open>None\<close>: the recursive call does not return.
\<close>

definition process_item ::
  "(string \<Rightarrow> string \<Rightarrow> 'w \<Rightarrow> ((error + unit) \<times> event list \<times> 'w) option) \<Rightarrow> self \<Rightarrow>
   'w requests \<Rightarrow> string \<Rightarrow> string \<Rightarrow> item \<Rightarrow> nat \<times> nat \<Rightarrow> 'w \<Rightarrow>
   ((error + nat \<times> nat) \<times> event list \<times> 'w) option" where
  "process_item recurse self rq source_folder target_folder item counts w =
     (let (success_count, total_count) = counts
      in if item_type item = ''file'' then
           (let source_path = item_path item;
                target_path = py_replace source_path source_folder target_folder
            in case get_file_content self rq source_path w of
                 (Inl e, evs1, w1) \<Rightarrow> Some (Inl e, Print (Processing source_path) # evs1, w1)
               | (Inr (content, sha), evs1, w1) \<Rightarrow>
                   if content \<noteq> [] then
                     (let updated_content = update_content_references content;
                          (created, evs2, w2) =
                            create_file self rq target_path updated_content
                              (commit_message source_folder target_folder) w1
                      in Some (Inr (if created then success_count + 1 else success_count,
                                    total_count),
                               Print (Processing source_path) # evs1 @ evs2, w2))
                   else Some (Inr (success_count, total_count),
                              Print (Processing source_path) # evs1, w1))
         else if item_type item = ''dir'' then
           (case recurse (item_path item)
                   (py_replace (item_path item) source_folder target_folder) w of
              None \<Rightarrow> None
            | Some (Inl e, evs, w') \<Rightarrow>
                Some (Inl e,
                      [Print (Processing_directory (item_path item)),
                       Replicate_folder (item_path item)
                         (py_replace (item_path item) source_folder target_folder) evs],
                      w')
            | Some (Inr u, evs, w') \<Rightarrow>
                Some (Inr (success_count, total_count),
                      [Print (Processing_directory (item_path item)),
                       Replicate_folder (item_path item)
                         (py_replace (item_path item) source_folder target_folder) evs],
                      w'))
         else Some (Inr (success_count, total_count), [], w))"

text \<open>One pass of the loop body: \<^verbatim>\<open>total_count += 1\<close>, then the branch on the type.\<close>

definition loop_body ::
  "(string \<Rightarrow> string \<Rightarrow> 'w \<Rightarrow> ((error + unit) \<times> event list \<times> 'w) option) \<Rightarrow> self \<Rightarrow>
   'w requests \<Rightarrow> string \<Rightarrow> string \<Rightarrow> item \<Rightarrow> nat \<times> nat \<Rightarrow> 'w \<Rightarrow>
   ((error + nat \<times> nat) \<times> event list \<times> 'w) option" where
  "loop_body recurse self rq source_folder target_folder item counts w =
     (let (success_count, total_count) = counts
      in process_item recurse self rq source_folder target_folder item
           (success_count, total_count + 1) w)"

text \<open>
  The loop over the listing, from the counters and the store it is entered with. A pass
  that raises ends the loop: the entries that follow are not reached.
\<close>

fun for_item_in ::
  "(string \<Rightarrow> string \<Rightarrow> 'w \<Rightarrow> ((error + unit) \<times> event list \<times> 'w) option) \<Rightarrow> self \<Rightarrow>
   'w requests \<Rightarrow> string \<Rightarrow> string \<Rightarrow> item list \<Rightarrow> nat \<times> nat \<Rightarrow> 'w \<Rightarrow>
   ((error + nat \<times> nat) \<times> event list \<times> 'w) option" where
  "for_item_in recurse self rq source_folder target_folder [] counts w =
     Some (Inr counts, [], w)"
| "for_item_in recurse self rq source_folder target_folder (item # contents) counts w =
     (case loop_body recurse self rq source_folder target_folder item counts w of
        None \<Rightarrow> None
      | Some (Inl e, evs1, w1) \<Rightarrow> Some (Inl e, evs1, w1)
      | Some (Inr counts1, evs1, w1) \<Rightarrow>
          (case for_item_in recurse self rq source_folder target_folder contents counts1 w1 of
             None \<Rightarrow> None
           | Some (result, evs2, w2) \<Rightarrow> Some (result, evs1 @ evs2, w2)))"

text \<open>
  \<^verbatim>\<open>replicate_folder\<close>. The source recurses into every subfolder with no bound on the
  depth, and the store decides what each listing holds, so the walk need not end. The first
  argument bounds the depth of the calls: \<open>None\<close> says that the bound was reached, and an
  invocation that returns or raises does so for every larger bound
  (\<open>replicate_folder_mono\<close>). \<open>Some (Inr (), evs, w)\<close> is a return, with the events of
  the invocation and the store it leaves; \<open>Some (Inl e, evs, w)\<close> is the exception
  \<open>e\<close> leaving the invocation, after these events.
\<close>

primrec replicate_folder ::
  "nat \<Rightarrow> self \<Rightarrow> 'w requests \<Rightarrow> string \<Rightarrow> string \<Rightarrow> 'w \<Rightarrow>
   ((error + unit) \<times> event list \<times> 'w) option" where
  "replicate_folder 0 self rq source_folder target_folder w = None"
| "replicate_folder (Suc depth) self rq source_folder target_folder w =
     (let (contents, evs0, w0) = get_folder_contents self rq source_folder w
      in if contents = [] then
           Some (Inr (),
                 Print (Starting_replication source_folder target_folder) # evs0
                   @ [Print (No_contents_found source_folder)], w0)
         else
           (case for_item_in (replicate_folder depth self rq) self rq
                   source_folder target_folder contents (0, 0) w0 of
              None \<Rightarrow> None
            | Some (Inl e, evs, w') \<Rightarrow>
                Some (Inl e,
                      Print (Starting_replication source_folder target_folder) # evs0 @ evs, w')
            | Some (Inr (success_count, total_count), evs, w') \<Rightarrow>
                Some (Inr (),
                      Print (Starting_replication source_folder target_folder) # evs0 @ evs
                        @ [Print (Completed success_count total_count)], w')))"

subsection \<open>Reading the events of one level\<close>

text \<open>
  The calls among the events of one invocation; the events of the invocations nested in
  a \<open>Replicate_folder\<close> are not members of the list and are not counted.
\<close>

fun is_fetch :: "event \<Rightarrow> bool" where
  "is_fetch (Get_file_content path result) = True"
| "is_fetch e = False"

fun is_empty_fetch :: "event \<Rightarrow> bool" where
  "is_empty_fetch (Get_file_content path (Inr result)) = (fst result = [])"
| "is_empty_fetch e = False"

fun is_listing :: "event \<Rightarrow> bool" where
  "is_listing (Get_folder_contents path result) = True"
| "is_listing e = False"

fun is_create :: "event \<Rightarrow> bool" where
  "is_create (Create_file path content message created) = True"
| "is_create e = False"

fun is_created :: "event \<Rightarrow> bool" where
  "is_created (Create_file path content message created) = created"
| "is_created e = False"

fun is_recursion :: "event \<Rightarrow> bool" where
  "is_recursion (Replicate_folder source_folder target_folder evs) = True"
| "is_recursion e = False"

fun is_print :: "event \<Rightarrow> bool" where
  "is_print (Print line) = True"
| "is_print e = False"

text \<open>The events of a nested invocation; no events for any other event.\<close>

fun nested :: "event \<Rightarrow> event list" where
  "nested (Replicate_folder source_folder target_folder evs) = evs"
| "nested e = []"

definition is_file :: "item \<Rightarrow> bool" where
  "is_file item = (item_type item = ''file'')"

definition is_dir :: "item \<Rightarrow> bool" where
  "is_dir item = (item_type item = ''dir'')"

definition count_where :: "('a \<Rightarrow> bool) \<Rightarrow> 'a list \<Rightarrow> nat" where
  "count_where P xs = length (filter P xs)"

text \<open>
  The path a call is made on: the path argument of a method of the client, the source
  folder of an invocation. \<open>calls P\<close> lists the paths of the events that satisfy \<open>P\<close>, in
  the order of the events.
\<close>

fun event_path :: "event \<Rightarrow> string" where
  "event_path (Print line) = ''''"
| "event_path (Get_folder_contents path result) = path"
| "event_path (Get_file_content path result) = path"
| "event_path (Create_file path content message created) = path"
| "event_path (Replicate_folder source_folder target_folder evs) = source_folder"

definition calls :: "(event \<Rightarrow> bool) \<Rightarrow> event list \<Rightarrow> string list" where
  "calls P evs = map event_path (filter P evs)"

subsection \<open>An example store\<close>

text \<open>
  A store with the folder \<^verbatim>\<open>reports\<close>: two files that can be fetched, one of them
  empty, a subfolder with one file, an entry whose fetch answers 404 and a symbolic link;
  and with the folder \<^verbatim>\<open>assets\<close>: an image, whose bytes are not UTF-8, and a text.
  The state of the store is the list of the URLs created so far; a PUT on a URL of the
  list answers 422, any other PUT answers 201 and adds the URL.
\<close>

definition example_self :: self where
  "example_self = \<lparr>headers = [(''Authorization'', ''token t''),
                              (''Accept'', ''application/vnd.github.v3+json'')],
                   base_url = ''https://api.github.com/repos/o/r''\<rparr>"

definition answer :: "nat \<Rightarrow> item list \<Rightarrow> error + string \<Rightarrow> response" where
  "answer code items content =
     \<lparr>status_code = code, json_items = items, json_content = content,
      json_sha = Inr ''''\<rparr>"

definition example_assets :: "item list" where
  "example_assets =
     [\<lparr>item_name = ''logo.png'', item_path = ''assets/logo.png'', item_type = ''file''\<rparr>,
      \<lparr>item_name = ''notes.txt'', item_path = ''assets/notes.txt'', item_type = ''file''\<rparr>]"

definition example_get :: "string \<Rightarrow> (string \<times> string) list \<Rightarrow> string list \<Rightarrow> response \<times> string list" where
  "example_get url hdrs w =
     (if url = ''https://api.github.com/repos/o/r/contents/reports'' then
        (answer 200
           [\<lparr>item_name = ''totals.csv'', item_path = ''reports/totals.csv'', item_type = ''file''\<rparr>,
            \<lparr>item_name = ''empty.txt'', item_path = ''reports/empty.txt'', item_type = ''file''\<rparr>,
            \<lparr>item_name = ''2025'', item_path = ''reports/2025'', item_type = ''dir''\<rparr>,
            \<lparr>item_name = ''gone.csv'', item_path = ''reports/gone.csv'', item_type = ''file''\<rparr>,
            \<lparr>item_name = ''latest'', item_path = ''reports/latest'', item_type = ''symlink''\<rparr>]
           (Inr ''''), w)
      else if url = ''https://api.github.com/repos/o/r/contents/reports/totals.csv'' then
        (answer 200 [] (Inr ''Oct totals''), w)
      else if url = ''https://api.github.com/repos/o/r/contents/reports/empty.txt'' then
        (answer 200 [] (Inr ''''), w)
      else if url = ''https://api.github.com/repos/o/r/contents/reports/2025'' then
        (answer 200
           [\<lparr>item_name = ''q3.csv'', item_path = ''reports/2025/q3.csv'', item_type = ''file''\<rparr>]
           (Inr ''''), w)
      else if url = ''https://api.github.com/repos/o/r/contents/reports/2025/q3.csv'' then
        (answer 200 [] (Inr ''Q3''), w)
      else if url = ''https://api.github.com/repos/o/r/contents/assets'' then
        (answer 200 example_assets (Inr ''''), w)
      else if url = ''https://api.github.com/repos/o/r/contents/assets/logo.png'' then
        (answer 200 [] (Inl UnicodeDecodeError), w)
      else if url = ''https://api.github.com/repos/o/r/contents/assets/notes.txt'' then
        (answer 200 [] (Inr ''notes''), w)
      else (answer 404 [] (Inr ''''), w))"

definition example_put ::
  "string \<Rightarrow> string \<times> string \<Rightarrow> (string \<times> string) list \<Rightarrow> string list \<Rightarrow> response \<times> string list" where
  "example_put url data hdrs w =
     (if url \<in> set w then (answer 422 [] (Inr ''''), w)
      else (answer 201 [] (Inr ''''), w @ [url]))"

definition example_requests :: "string list requests" where
  "example_requests = \<lparr>requests_get = example_get, requests_put = example_put\<rparr>"


definition example_sub_events :: "event list" where
  "example_sub_events =
     [Print (Starting_replication ''reports/2025'' ''Oct/reports/2025''),
      Get_folder_contents ''reports/2025''
        [\<lparr>item_name = ''q3.csv'', item_path = ''reports/2025/q3.csv'', item_type = ''file''\<rparr>],
      Print (Processing ''reports/2025/q3.csv''),
      Get_file_content ''reports/2025/q3.csv'' (Inr (''Q3'', '''')),
      Create_file ''Oct/reports/2025/q3.csv'' ''Q3''
        ''chore: replicate reports/2025 structure for Oct/reports/2025'' True,
      Print (Created ''Oct/reports/2025/q3.csv''),
      Print (Completed 1 1)]"


text \<open>
  The walk of \<^verbatim>\<open>assets\<close>: the fetch of the image raises, and the text that follows it
  in the listing is not reached.
\<close>

definition example_assets_events :: "event list" where
  "example_assets_events =
     [Print (Starting_replication ''assets'' ''Oct/assets''),
      Get_folder_contents ''assets'' example_assets,
      Print (Processing ''assets/logo.png''),
      Get_file_content ''assets/logo.png'' (Inl UnicodeDecodeError)]"

section \<open>The rewrite step and the path mapping\<close>

subsection \<open>Facts about \<^verbatim>\<open>str.replace\<close>\<close>

lemma replace_nonempty_same: "new = old \<Longrightarrow> replace_nonempty old new s = s"
  by (induction old new s rule: replace_nonempty.induct) (auto simp: prefix_def)

lemma py_replace_same: "py_replace s old old = s"
  by (simp add: py_replace_def replace_nonempty_same)

lemma py_in_sublist: "py_in sub s \<longleftrightarrow> sublist sub s"
  by (induction s) (auto simp: sublist_Cons_right)

lemma replace_nonempty_absent: "\<not> py_in old s \<Longrightarrow> replace_nonempty old new s = s"
  by (induction old new s rule: replace_nonempty.induct) auto

text \<open>
  Where the path is the source folder followed by a rest in which the source folder does
  not occur again, the replacement puts the target folder in front of that rest.
\<close>

lemma path_mapping_prefix:
  assumes "source_folder \<noteq> []" and "\<not> py_in source_folder rest"
  shows "py_replace (source_folder @ rest) source_folder target_folder = target_folder @ rest"
proof (cases source_folder)
  case Nil
  with assms show ?thesis by simp
next
  case (Cons c cs)
  then show ?thesis using assms
    by (simp add: py_replace_def replace_nonempty_absent)
qed

lemma apply_replacements_same:
  "map fst table = map snd table \<Longrightarrow> apply_replacements table s = s"
  by (induction table s rule: apply_replacements.induct) (auto simp: py_replace_same)

lemma replacements_same: "map fst replacements = map snd replacements"
  by (simp add: replacements_def)

lemma replacements_no_earlier_pattern: "no_earlier_pattern [] replacements"
  by (simp add: replacements_def)

subsection \<open>The table as it stands\<close>

text \<open>
  C1. The specification says that the table maps each token of the source period to the
  spelling one period forward, so that some text comes back with the advanced spelling.
  The table of the source maps every token to itself: the two columns are the same list,
  and a text made of the tokens comes back as it went in.
\<close>

theorem replacements_advance_nothing:
  "map fst replacements = map snd replacements \<and>
   update_content_references ''Nav_Oct_2025/October report 2025-10''
     = ''Nav_Oct_2025/October report 2025-10''"
  by (simp add: replacements_def update_content_references_def py_replace_def)

text \<open>
  C3. For every text, \<^verbatim>\<open>update_content_references\<close> returns the text unchanged: each
  pair of the table replaces a pattern by itself.
\<close>

theorem update_content_references_identity: "update_content_references content = content"
  unfolding update_content_references_def
  by (rule apply_replacements_same [OF replacements_same])

text \<open>
  C5. The rewrite step applied twice gives what it gives applied once. The hypothesis of
  the specification, that no replacement value contains a find-pattern standing earlier
  in the table, holds of the table of the source.
\<close>

theorem update_content_references_idempotent:
  "no_earlier_pattern [] replacements \<and>
   update_content_references (update_content_references content)
     = update_content_references content"
proof
  show "no_earlier_pattern [] replacements"
    by (rule replacements_no_earlier_pattern)
next
  have "apply_replacements replacements s = s" for s :: string
    by (rule apply_replacements_same [OF replacements_same])
  then show "update_content_references (update_content_references content)
      = update_content_references content"
    by (simp add: update_content_references_def)
qed

theorem update_content_references_idempotent_witness:
  "no_earlier_pattern [] replacements \<and>
   update_content_references (update_content_references ''Oct 10/2025'')
     = update_content_references ''Oct 10/2025''"
  using update_content_references_idempotent [of "''Oct 10/2025''"] by simp

text \<open>
  The hypothesis alone would not carry the property to another table: with the one pair
  \<^verbatim>\<open>'ab': 'a'\<close> nothing stands earlier, and the loop turns \<^verbatim>\<open>'abb'\<close> into
  \<^verbatim>\<open>'ab'\<close> and that into \<^verbatim>\<open>'a'\<close>.
\<close>

lemma other_table_not_idempotent:
  "no_earlier_pattern [] [(''ab'', ''a'')] \<and>
   apply_replacements [(''ab'', ''a'')] (apply_replacements [(''ab'', ''a'')] ''abb'')
     \<noteq> apply_replacements [(''ab'', ''a'')] ''abb''"
  by (simp add: py_replace_def)

subsection \<open>The path mapping\<close>

text \<open>
  C4. With the source folder \<^verbatim>\<open>A\<close> and the target folder \<^verbatim>\<open>A/Target\<close>, the path
  \<^verbatim>\<open>A/B/c.txt\<close> is mapped to \<^verbatim>\<open>A/Target/B/c.txt\<close> by the replacement that
  \<^verbatim>\<open>replicate_folder\<close> computes the target path with.
\<close>

theorem path_mapping_example:
  "py_replace ''A/B/c.txt'' ''A'' ''A/Target'' = ''A/Target/B/c.txt''"
  by (simp add: py_replace_def)

text \<open>
  C2. The specification says that a path made of the source folder and a relative rest is
  mapped to the target folder followed by the same rest. \<^verbatim>\<open>str.replace\<close> rewrites
  every occurrence of the source folder, also those in the rest: under the folder
  \<^verbatim>\<open>reports\<close>, replicated to \<^verbatim>\<open>October_2025/reports\<close>, the file
  \<^verbatim>\<open>reports/reports.csv\<close> is not mapped to \<^verbatim>\<open>October_2025/reports/reports.csv\<close>.
\<close>

theorem path_mapping_rewrites_rest:
  "py_replace (''reports'' @ ''/reports.csv'') ''reports'' ''October_2025/reports''
     = ''October_2025/reports/October_2025/reports.csv'' \<and>
   py_replace (''reports'' @ ''/reports.csv'') ''reports'' ''October_2025/reports''
     \<noteq> ''October_2025/reports'' @ ''/reports.csv''"
  by (simp add: py_replace_def)

section \<open>The walk\<close>

subsection \<open>Counting events\<close>

lemma count_where_Nil [simp]: "count_where P [] = 0"
  by (simp add: count_where_def)

lemma count_where_Cons [simp]: "count_where P (x # xs) = (if P x then 1 else 0) + count_where P xs"
  by (simp add: count_where_def)

lemma count_where_append [simp]: "count_where P (xs @ ys) = count_where P xs + count_where P ys"
  by (simp add: count_where_def)


text \<open>The events of the three methods of the client.\<close>

lemma get_folder_contents_events:
  assumes "get_folder_contents self rq path w = (contents, evs, w')"
  shows "\<exists>prints. evs = Get_folder_contents path contents # prints \<and> list_all is_print prints"
  using assms
  by (auto simp: get_folder_contents_def Let_def split: prod.splits if_splits)

lemma get_file_content_events:
  assumes "get_file_content self rq path w = (result, evs, w')"
  shows "\<exists>prints. evs = Get_file_content path result # prints \<and> list_all is_print prints"
  using assms
  by (auto simp: get_file_content_def Let_def split: prod.splits if_splits sum.splits)

lemma create_file_events:
  assumes "create_file self rq path content message w = (created, evs, w')"
  shows "\<exists>prints. evs = Create_file path content message created # prints \<and> list_all is_print prints"
  using assms
  by (auto simp: create_file_def Let_def split: prod.splits if_splits)

lemma is_print_excludes:
  assumes "is_print e"
  shows "\<not> is_fetch e" "\<not> is_empty_fetch e" "\<not> is_listing e" "\<not> is_create e"
    "\<not> is_created e" "\<not> is_recursion e"
  using assms by (cases e; simp)+

lemma count_prints:
  assumes "list_all is_print ps"
  shows "count_where is_fetch ps = 0" "count_where is_empty_fetch ps = 0"
    "count_where is_listing ps = 0" "count_where is_create ps = 0"
    "count_where is_created ps = 0" "count_where is_recursion ps = 0"
  using assms by (induction ps) (auto simp: is_print_excludes)

text \<open>The branches of the loop body.\<close>

lemma process_item_file_raise:
  assumes "item_type item = ''file''"
    and "get_file_content self rq (item_path item) w = (Inl e, evs1, w1)"
  shows "process_item recurse self rq source_folder target_folder item (s, t) w
    = Some (Inl e, Print (Processing (item_path item)) # evs1, w1)"
  using assms by (simp add: process_item_def)

lemma process_item_file_empty:
  assumes "item_type item = ''file''"
    and "get_file_content self rq (item_path item) w = (Inr ('''', sha), evs1, w1)"
  shows "process_item recurse self rq source_folder target_folder item (s, t) w
    = Some (Inr (s, t), Print (Processing (item_path item)) # evs1, w1)"
  using assms by (simp add: process_item_def)

lemma process_item_file_create:
  assumes "item_type item = ''file''"
    and "get_file_content self rq (item_path item) w = (Inr (content, sha), evs1, w1)"
    and "content \<noteq> []"
    and "create_file self rq (py_replace (item_path item) source_folder target_folder)
           (update_content_references content)
           (commit_message source_folder target_folder) w1
         = (created, evs2, w2)"
  shows "process_item recurse self rq source_folder target_folder item (s, t) w
    = Some (Inr (if created then s + 1 else s, t),
            Print (Processing (item_path item)) # evs1 @ evs2, w2)"
  using assms by (simp add: process_item_def)

lemma process_item_dir_return:
  assumes "item_type item = ''dir''"
    and "recurse (item_path item) (py_replace (item_path item) source_folder target_folder) w
           = Some (Inr u, sub, w1)"
  shows "process_item recurse self rq source_folder target_folder item (s, t) w
    = Some (Inr (s, t),
            [Print (Processing_directory (item_path item)),
             Replicate_folder (item_path item)
               (py_replace (item_path item) source_folder target_folder) sub], w1)"
  using assms by (simp add: process_item_def)

lemma process_item_dir_raise:
  assumes "item_type item = ''dir''"
    and "recurse (item_path item) (py_replace (item_path item) source_folder target_folder) w
           = Some (Inl e, sub, w1)"
  shows "process_item recurse self rq source_folder target_folder item (s, t) w
    = Some (Inl e,
            [Print (Processing_directory (item_path item)),
             Replicate_folder (item_path item)
               (py_replace (item_path item) source_folder target_folder) sub], w1)"
  using assms by (simp add: process_item_def)

lemma process_item_dir_None:
  assumes "item_type item = ''dir''"
    and "recurse (item_path item) (py_replace (item_path item) source_folder target_folder) w
           = None"
  shows "process_item recurse self rq source_folder target_folder item (s, t) w = None"
  using assms by (simp add: process_item_def)

lemma process_item_other:
  assumes "item_type item \<noteq> ''file''" and "item_type item \<noteq> ''dir''"
  shows "process_item recurse self rq source_folder target_folder item (s, t) w
    = Some (Inr (s, t), [], w)"
  using assms by (simp add: process_item_def)

lemma loop_body_process_item:
  "loop_body recurse self rq source_folder target_folder item (s, t) w
     = process_item recurse self rq source_folder target_folder item (s, t + 1) w"
  by (simp add: loop_body_def)

text \<open>What a branch that is passed leaves, whatever the type of the entry.\<close>

lemma process_item_summary:
  assumes "process_item recurse self rq source_folder target_folder item (s, t) w
             = Some (Inr (s', t'), evs, w')"
  shows "t' = t \<and> s' = s + count_where is_created evs
    \<and> count_where is_fetch evs = (if item_type item = ''file'' then 1 else 0)
    \<and> count_where is_recursion evs = (if item_type item = ''dir'' then 1 else 0)
    \<and> count_where is_create evs + count_where is_empty_fetch evs = count_where is_fetch evs
    \<and> count_where is_listing evs = 0
    \<and> (\<forall>e\<in>set evs. is_recursion e \<longrightarrow>
           (\<exists>b w0 w1. recurse (event_path e) b w0 = Some (Inr (), nested e, w1)))"
proof -
  consider (regular) "item_type item = ''file''"
    | (dir) "item_type item = ''dir''"
    | (other) "item_type item \<noteq> ''file''" "item_type item \<noteq> ''dir''"
    by blast
  then show ?thesis
  proof cases
    case regular
    obtain r evs1 w1 where
      g: "get_file_content self rq (item_path item) w = (r, evs1, w1)"
      by (metis prod.exhaust)
    obtain prints where
      e1: "evs1 = Get_file_content (item_path item) r # prints"
      and p1: "list_all is_print prints"
      using get_file_content_events [OF g] by blast
    show ?thesis
    proof (cases r)
      case (Inl e)
      from assms [unfolded process_item_file_raise [OF regular g [unfolded Inl]]]
      show ?thesis by simp
    next
      case (Inr cs)
      obtain content sha where cs: "cs = (content, sha)" by (cases cs)
      note g' = g [unfolded Inr cs]
      show ?thesis
      proof (cases "content = []")
        case True
        from assms [unfolded process_item_file_empty [OF regular g' [unfolded True]]]
        have r: "s' = s" "t' = t" "evs = Print (Processing (item_path item)) # evs1"
          by simp_all
        show ?thesis
          using regular True p1
          by (auto simp: r e1 Inr cs count_prints list_all_iff is_print_excludes)
      next
        case False
        obtain created evs2 w2 where
          k: "create_file self rq (py_replace (item_path item) source_folder target_folder)
               (update_content_references content)
               (commit_message source_folder target_folder) w1
             = (created, evs2, w2)"
          by (metis prod.exhaust)
        obtain prints2 where
          e2: "evs2 = Create_file (py_replace (item_path item) source_folder target_folder)
               (update_content_references content)
               (commit_message source_folder target_folder) created # prints2"
          and p2: "list_all is_print prints2"
          using create_file_events [OF k] by blast
        from assms [unfolded process_item_file_create [OF regular g' False k]]
        have r: "s' = (if created then s + 1 else s)" "t' = t"
          "evs = Print (Processing (item_path item)) # evs1 @ evs2"
          by simp_all
        show ?thesis
          using regular False p1 p2
          by (auto simp: r e1 e2 Inr cs count_prints list_all_iff is_print_excludes)
      qed
    qed
  next
    case dir
    show ?thesis
    proof (cases "recurse (item_path item)
        (py_replace (item_path item) source_folder target_folder) w")
      case None
      from assms [unfolded process_item_dir_None
        [where recurse = recurse and source_folder = source_folder
          and target_folder = target_folder and w = w, OF dir None]]
      show ?thesis by simp
    next
      case (Some res)
      obtain r sub w1 where res: "res = (r, sub, w1)" by (cases res)
      show ?thesis
      proof (cases r)
        case (Inl e)
        from assms [unfolded process_item_dir_raise
        [where recurse = recurse and source_folder = source_folder
          and target_folder = target_folder and w = w, OF dir Some [unfolded res Inl]]]
        show ?thesis by simp
      next
        case (Inr u)
        note rec = Some [unfolded res Inr]
        from assms [unfolded process_item_dir_return
        [where recurse = recurse and source_folder = source_folder
          and target_folder = target_folder and w = w, OF dir rec]]
        have r: "s' = s" "t' = t" "w' = w1"
          "evs = [Print (Processing_directory (item_path item)),
                  Replicate_folder (item_path item)
                    (py_replace (item_path item) source_folder target_folder) sub]"
          by simp_all
        show ?thesis
          using dir rec by (auto simp: r)
      qed
    qed
  next
    case other
    from assms [unfolded process_item_other [OF other]]
    have r: "s' = s" "t' = t" "evs = []"
      by simp_all
    show ?thesis
      using other by (simp add: r)
  qed
qed

lemma for_item_in_Cons_return:
  assumes "for_item_in recurse self rq source_folder target_folder (item # contents) counts w
             = Some (Inr counts', evs, w')"
  obtains counts1 evs1 w1 evs2 where
    "loop_body recurse self rq source_folder target_folder item counts w
       = Some (Inr counts1, evs1, w1)"
    "for_item_in recurse self rq source_folder target_folder contents counts1 w1
       = Some (Inr counts', evs2, w')"
    "evs = evs1 @ evs2"
  using assms by (auto split: option.splits prod.splits sum.splits)

lemma for_item_in_summary:
  assumes "for_item_in recurse self rq source_folder target_folder contents (s, t) w
             = Some (Inr (s', t'), evs, w')"
  shows "t' = t + length contents
    \<and> s' = s + count_where is_created evs
    \<and> count_where is_fetch evs = count_where is_file contents
    \<and> count_where is_recursion evs = count_where is_dir contents
    \<and> count_where is_create evs + count_where is_empty_fetch evs = count_where is_fetch evs
    \<and> count_where is_listing evs = 0
    \<and> (\<forall>e\<in>set evs. is_recursion e \<longrightarrow>
           (\<exists>b w0 w1. recurse (event_path e) b w0 = Some (Inr (), nested e, w1)))"
  using assms
proof (induction contents arbitrary: s t w s' t' evs w')
  case Nil
  then show ?case by simp
next
  case (Cons item contents)
  from Cons.prems obtain counts1 evs1 w1 evs2 where
    b: "loop_body recurse self rq source_folder target_folder item (s, t) w
          = Some (Inr counts1, evs1, w1)"
    and r: "for_item_in recurse self rq source_folder target_folder contents counts1 w1
          = Some (Inr (s', t'), evs2, w')"
    and e: "evs = evs1 @ evs2"
    by (rule for_item_in_Cons_return)
  obtain s1 t1 where c: "counts1 = (s1, t1)" by (cases counts1)
  note h = process_item_summary [OF b [unfolded loop_body_process_item c]]
  note ih = Cons.IH [OF r [unfolded c]]
  show ?case
    using h ih by (auto simp: e is_file_def is_dir_def)
qed

subsection \<open>One level of the walk\<close>

text \<open>An invocation that returns has stopped at an empty listing or walked the listing.\<close>

lemma replicate_folder_level:
  assumes "replicate_folder depth self rq source_folder target_folder w
             = Some (Inr u, evs, w')"
    and "get_folder_contents self rq source_folder w = (contents, evs0, w0)"
  obtains (stop) "contents = []" "w' = w0"
      "evs = Print (Starting_replication source_folder target_folder) # evs0
               @ [Print (No_contents_found source_folder)]"
    | (walk) d s t evs1 where "depth = Suc d" "contents \<noteq> []"
      "for_item_in (replicate_folder d self rq) self rq source_folder target_folder
         contents (0, 0) w0 = Some (Inr (s, t), evs1, w')"
      "evs = Print (Starting_replication source_folder target_folder) # evs0 @ evs1
               @ [Print (Completed s t)]"
proof (cases depth)
  case 0
  with assms show ?thesis by simp
next
  case (Suc d)
  show ?thesis
  proof (cases "contents = []")
    case True
    with assms Suc show ?thesis by (intro stop) simp_all
  next
    case False
    with assms Suc obtain s t evs1 where
      "for_item_in (replicate_folder d self rq) self rq source_folder target_folder
            contents (0, 0) w0 = Some (Inr (s, t), evs1, w')"
      "evs = Print (Starting_replication source_folder target_folder) # evs0 @ evs1
                        @ [Print (Completed s t)]"
      by (auto split: option.splits sum.splits prod.splits)
    with Suc False show ?thesis by (intro walk)
  qed
qed


text \<open>
  The report that ends a level with entries: the successful creations of this level and
  the number of its entries. What the invocations nested in it created is not in it.
\<close>

lemma level_report:
  assumes "replicate_folder depth self rq source_folder target_folder w
             = Some (Inr u, evs, w')"
    and "get_folder_contents self rq source_folder w = (contents, evs0, w0)"
    and "contents \<noteq> []"
  shows "last evs = Print (Completed (count_where is_created evs) (length contents))"
proof -
  obtain prints where
    e0: "evs0 = Get_folder_contents source_folder contents # prints"
    and p: "list_all is_print prints"
    using get_folder_contents_events [OF assms(2)] by blast
  from assms(1,2) show ?thesis
  proof (cases rule: replicate_folder_level)
    case stop
    with assms(3) show ?thesis by simp
  next
    case (walk d s t evs1)
    from for_item_in_summary [OF walk(3)]
    have "t = length contents" "s = count_where is_created evs1"
      by simp_all
    then show ?thesis
      by (simp add: walk(4) e0 count_prints [OF p])
  qed
qed

subsection \<open>The bound on the depth\<close>

text \<open>A larger bound changes nothing for an invocation that returns or raises.\<close>

lemma process_item_mono:
  assumes "\<And>a b v r. recurse a b v = Some r \<Longrightarrow> recurse' a b v = Some r"
    and "process_item recurse self rq source_folder target_folder item counts w = Some r"
  shows "process_item recurse' self rq source_folder target_folder item counts w = Some r"
proof (cases "item_type item = ''dir''")
  case True
  from assms(2) True obtain res where
    rec: "recurse (item_path item) (py_replace (item_path item) source_folder target_folder) w
            = Some res"
    by (auto simp: process_item_def split: prod.splits option.splits)
  from assms(1) [OF rec] have
    "recurse' (item_path item) (py_replace (item_path item) source_folder target_folder) w
            = Some res" .
  with assms(2) rec True show ?thesis
    by (simp add: process_item_def split: prod.splits)
next
  case False
  then have "process_item recurse' self rq source_folder target_folder item counts w
      = process_item recurse self rq source_folder target_folder item counts w"
    by (cases counts) (simp add: process_item_def)
  with assms(2) show ?thesis by simp
qed

lemma for_item_in_mono:
  assumes "\<And>a b v r. recurse a b v = Some r \<Longrightarrow> recurse' a b v = Some r"
    and "for_item_in recurse self rq source_folder target_folder contents counts w = Some r"
  shows "for_item_in recurse' self rq source_folder target_folder contents counts w = Some r"
  using assms(2)
proof (induction contents arbitrary: counts w r)
  case Nil
  then show ?case by simp
next
  case (Cons item contents)
  from Cons.prems obtain res where
    b: "loop_body recurse self rq source_folder target_folder item counts w = Some res"
    by (auto split: option.splits)
  obtain s t where c: "counts = (s, t)" by (cases counts)
  have b': "loop_body recurse' self rq source_folder target_folder item counts w
      = Some res"
    using process_item_mono [of recurse recurse', OF assms(1) b [unfolded c loop_body_process_item]]
    by (simp add: c loop_body_process_item)
  obtain o1 evs1 w1 where res: "res = (o1, evs1, w1)" by (cases res)
  show ?case
  proof (cases o1)
    case (Inl e)
    from Cons.prems have "r = (Inl e, evs1, w1)"
      by (simp add: b res Inl)
    then show ?thesis
      by (simp add: b' res Inl)
  next
    case (Inr counts1)
    from Cons.prems obtain res2 where
      f: "for_item_in recurse self rq source_folder target_folder contents counts1 w1
            = Some res2"
      and r: "r = (fst res2, evs1 @ fst (snd res2), snd (snd res2))"
      by (auto simp: b res Inr split: option.splits prod.splits)
    note f' = Cons.IH [OF f]
    show ?thesis
      by (simp add: b' res Inr f' r split: prod.splits)
  qed
qed

lemma replicate_folder_mono:
  "replicate_folder depth self rq source_folder target_folder w = Some r
   \<Longrightarrow> replicate_folder (Suc depth) self rq source_folder target_folder w = Some r"
proof (induction depth arbitrary: source_folder target_folder w r)
  case 0
  then show ?case by simp
next
  case (Suc depth)
  have step: "\<And>a b v r. replicate_folder depth self rq a b v = Some r
     \<Longrightarrow> replicate_folder (Suc depth) self rq a b v = Some r"
    by (rule Suc.IH)
  obtain contents evs0 w0 where
    g: "get_folder_contents self rq source_folder w = (contents, evs0, w0)"
    by (metis prod.exhaust)
  show ?case
  proof (cases "contents = []")
    case True
    with Suc.prems g show ?thesis by simp
  next
    case False
    with Suc.prems g obtain res where
      f: "for_item_in (replicate_folder depth self rq) self rq source_folder target_folder
            contents (0, 0) w0 = Some res"
      by (auto split: option.splits)
    from for_item_in_mono [of "replicate_folder depth self rq"
        "replicate_folder (Suc depth) self rq", OF step f]
    have f': "for_item_in (replicate_folder (Suc depth) self rq) self rq source_folder
        target_folder contents (0, 0) w0 = Some res" .
    have a: "replicate_folder (Suc depth) self rq source_folder target_folder w
      = (case Some res of
              None \<Rightarrow> None
            | Some (Inl e, evs, w') \<Rightarrow>
                Some (Inl e,
                      Print (Starting_replication source_folder target_folder) # evs0 @ evs, w')
            | Some (Inr (success_count, total_count), evs, w') \<Rightarrow>
                Some (Inr (),
                      Print (Starting_replication source_folder target_folder) # evs0 @ evs
                        @ [Print (Completed success_count total_count)], w'))"
      using g False f by simp
    have b: "replicate_folder (Suc (Suc depth)) self rq source_folder target_folder w
      = (case Some res of
              None \<Rightarrow> None
            | Some (Inl e, evs, w') \<Rightarrow>
                Some (Inl e,
                      Print (Starting_replication source_folder target_folder) # evs0 @ evs, w')
            | Some (Inr (success_count, total_count), evs, w') \<Rightarrow>
                Some (Inr (),
                      Print (Starting_replication source_folder target_folder) # evs0 @ evs
                        @ [Print (Completed success_count total_count)], w'))"
      using g False f'
      by (simp del: replicate_folder.simps add: replicate_folder.simps(2) [of "Suc depth"])
    from a b Suc.prems show ?thesis by simp
  qed
qed

subsection \<open>When a level returns\<close>




text \<open>A fetch that raises ends the loop: the exception leaves it with the events so far.\<close>

lemma fetch_raise_ends_loop:
  assumes "item_type item = ''file''"
    and "get_file_content self rq (item_path item) w = (Inl e, evs1, w1)"
  shows "for_item_in recurse self rq source_folder target_folder (item # contents) counts w
    = Some (Inl e, Print (Processing (item_path item)) # evs1, w1)"
proof -
  obtain s t where c: "counts = (s, t)" by (cases counts)
  show ?thesis
    using process_item_file_raise [OF assms]
    by (simp add: c loop_body_process_item)
qed

subsection \<open>The paths of the calls\<close>

text \<open>
  Which entries the calls of a level are made for: the files are fetched and the
  subfolders are entered in the order of the listing, one call for each entry, and every
  invocation lists its own source folder, once.
\<close>

lemma calls_simps [simp]:
  "calls P [] = []"
  "calls P (e # evs) = (if P e then event_path e # calls P evs else calls P evs)"
  "calls P (evs @ evs') = calls P evs @ calls P evs'"
  by (simp_all add: calls_def)

lemma calls_prints:
  assumes "list_all is_print ps"
  shows "calls is_fetch ps = []" "calls is_listing ps = []" "calls is_recursion ps = []"
  using assms by (induction ps) (auto simp: is_print_excludes)

lemma replicate_folder_lists_source:
  assumes "replicate_folder depth self rq source_folder target_folder w
             = Some (Inr u, evs, w')"
  shows "calls is_listing evs = [source_folder]"
proof -
  obtain contents evs0 w0 where
    g: "get_folder_contents self rq source_folder w = (contents, evs0, w0)"
    by (metis prod.exhaust)
  obtain prints where
    e0: "evs0 = Get_folder_contents source_folder contents # prints"
    and p: "list_all is_print prints"
    using get_folder_contents_events [OF g] by blast
  from assms g show ?thesis
  proof (cases rule: replicate_folder_level)
    case stop
    then show ?thesis by (simp add: e0 calls_prints [OF p])
  next
    case (walk d s t evs1)
    from for_item_in_summary [OF walk(3)] have "count_where is_listing evs1 = 0"
      by simp
    then have "calls is_listing evs1 = []"
      by (simp add: count_where_def calls_def)
    then show ?thesis by (simp add: walk(4) e0 calls_prints [OF p])
  qed
qed

lemma process_item_paths:
  assumes "process_item recurse self rq source_folder target_folder item (s, t) w
             = Some (Inr counts', evs, w')"
  shows "calls is_fetch evs = (if is_file item then [item_path item] else [])
    \<and> calls is_recursion evs = (if is_dir item then [item_path item] else [])"
proof -
  consider (regular) "item_type item = ''file''"
    | (dir) "item_type item = ''dir''"
    | (other) "item_type item \<noteq> ''file''" "item_type item \<noteq> ''dir''"
    by blast
  then show ?thesis
  proof cases
    case regular
    obtain r evs1 w1 where
      g: "get_file_content self rq (item_path item) w = (r, evs1, w1)"
      by (metis prod.exhaust)
    obtain prints where
      e1: "evs1 = Get_file_content (item_path item) r # prints"
      and p1: "list_all is_print prints"
      using get_file_content_events [OF g] by blast
    show ?thesis
    proof (cases r)
      case (Inl e)
      from assms [unfolded process_item_file_raise [OF regular g [unfolded Inl]]]
      show ?thesis by simp
    next
      case (Inr cs)
      obtain content sha where cs: "cs = (content, sha)" by (cases cs)
      note g' = g [unfolded Inr cs]
      show ?thesis
      proof (cases "content = []")
        case True
        from assms [unfolded process_item_file_empty [OF regular g' [unfolded True]]]
        have "evs = Print (Processing (item_path item)) # evs1"
          by simp
        then show ?thesis
          using regular by (simp add: e1 calls_prints [OF p1] is_file_def is_dir_def)
      next
        case False
        obtain created evs2 w2 where
          k: "create_file self rq (py_replace (item_path item) source_folder target_folder)
               (update_content_references content)
               (commit_message source_folder target_folder) w1
             = (created, evs2, w2)"
          by (metis prod.exhaust)
        obtain prints2 where
          e2: "evs2 = Create_file (py_replace (item_path item) source_folder target_folder)
               (update_content_references content)
               (commit_message source_folder target_folder) created # prints2"
          and p2: "list_all is_print prints2"
          using create_file_events [OF k] by blast
        from assms [unfolded process_item_file_create [OF regular g' False k]]
        have "evs = Print (Processing (item_path item)) # evs1 @ evs2"
          by simp
        then show ?thesis
          using regular
          by (simp add: e1 e2 calls_prints [OF p1] calls_prints [OF p2] is_file_def is_dir_def)
      qed
    qed
  next
    case dir
    show ?thesis
    proof (cases "recurse (item_path item)
        (py_replace (item_path item) source_folder target_folder) w")
      case None
      from assms [unfolded process_item_dir_None
        [where recurse = recurse and source_folder = source_folder
          and target_folder = target_folder and w = w, OF dir None]]
      show ?thesis by simp
    next
      case (Some res)
      obtain r sub w1 where res: "res = (r, sub, w1)" by (cases res)
      show ?thesis
      proof (cases r)
        case (Inl e)
        from assms [unfolded process_item_dir_raise
          [where recurse = recurse and source_folder = source_folder
            and target_folder = target_folder and w = w, OF dir Some [unfolded res Inl]]]
        show ?thesis by simp
      next
        case (Inr u)
        from assms [unfolded process_item_dir_return
          [where recurse = recurse and source_folder = source_folder
            and target_folder = target_folder and w = w, OF dir Some [unfolded res Inr]]]
        have "evs = [Print (Processing_directory (item_path item)),
                  Replicate_folder (item_path item)
                    (py_replace (item_path item) source_folder target_folder) sub]"
          by simp
        then show ?thesis
          using dir by (simp add: is_file_def is_dir_def)
      qed
    qed
  next
    case other
    from assms [unfolded process_item_other [OF other]]
    have "evs = []" by simp
    then show ?thesis
      using other by (simp add: is_file_def is_dir_def)
  qed
qed

lemma for_item_in_paths:
  assumes "for_item_in recurse self rq source_folder target_folder contents counts w
             = Some (Inr counts', evs, w')"
  shows "calls is_fetch evs = map item_path (filter is_file contents)
    \<and> calls is_recursion evs = map item_path (filter is_dir contents)"
  using assms
proof (induction contents arbitrary: counts w counts' evs w')
  case Nil
  then show ?case by simp
next
  case (Cons item contents)
  from Cons.prems obtain counts1 evs1 w1 evs2 where
    b: "loop_body recurse self rq source_folder target_folder item counts w
          = Some (Inr counts1, evs1, w1)"
    and r: "for_item_in recurse self rq source_folder target_folder contents counts1 w1
          = Some (Inr counts', evs2, w')"
    and e: "evs = evs1 @ evs2"
    by (rule for_item_in_Cons_return)
  obtain s t where c: "counts = (s, t)" by (cases counts)
  note h = process_item_paths [OF b [unfolded c loop_body_process_item]]
  note ih = Cons.IH [OF r]
  show ?case
    using h ih by (simp add: e)
qed

lemma level_call_paths:
  assumes "replicate_folder depth self rq source_folder target_folder w
             = Some (Inr u, evs, w')"
    and "get_folder_contents self rq source_folder w = (contents, evs0, w0)"
  shows "calls is_listing evs = [source_folder]
    \<and> calls is_fetch evs = map item_path (filter is_file contents)
    \<and> calls is_recursion evs = map item_path (filter is_dir contents)
    \<and> (\<forall>e\<in>set evs. is_recursion e \<longrightarrow> calls is_listing (nested e) = [event_path e])"
proof -
  obtain prints where
    e0: "evs0 = Get_folder_contents source_folder contents # prints"
    and p: "list_all is_print prints"
    using get_folder_contents_events [OF assms(2)] by blast
  have p': "\<forall>e\<in>set prints. is_print e"
    using p by (simp add: list_all_iff)
  note listing = replicate_folder_lists_source [OF assms(1)]
  from assms show ?thesis
  proof (cases rule: replicate_folder_level)
    case stop
    then show ?thesis
      using p' listing by (auto simp: e0 calls_prints [OF p] is_print_excludes)
  next
    case (walk d s t evs1)
    note paths = for_item_in_paths [OF walk(3)]
    note sum = for_item_in_summary [OF walk(3)]
    have nested: "\<forall>e\<in>set evs. is_recursion e \<longrightarrow> calls is_listing (nested e) = [event_path e]"
    proof (intro ballI impI)
      fix e assume "e \<in> set evs" and r: "is_recursion e"
      then have "e \<in> set evs1"
        using p' by (auto simp: walk(4) e0 is_print_excludes)
      with sum r obtain b w0' w1 where
        "replicate_folder d self rq (event_path e) b w0' = Some (Inr (), nested e, w1)"
        by blast
      then show "calls is_listing (nested e) = [event_path e]"
        by (rule replicate_folder_lists_source)
    qed
    show ?thesis
      using paths listing nested by (simp add: walk(4) e0 calls_prints [OF p])
  qed
qed

subsection \<open>The example store, walked\<close>



lemma example_sub_run:
  "replicate_folder 1 example_self example_requests ''reports/2025'' ''Oct/reports/2025'' []
     = Some (Inr (), example_sub_events,
             [''https://api.github.com/repos/o/r/contents/Oct/reports/2025/q3.csv''])"
  by code_simp


lemma example_assets_run:
  "replicate_folder 1 example_self example_requests ''assets'' ''Oct/assets'' []
     = Some (Inl UnicodeDecodeError, example_assets_events, [])"
  by code_simp




text \<open>The exception leaves the walk of \<^verbatim>\<open>assets\<close> at every bound on the depth.\<close>

lemma example_assets_run_any_depth:
  "replicate_folder (Suc depth) example_self example_requests ''assets'' ''Oct/assets'' []
     = Some (Inl UnicodeDecodeError, example_assets_events, [])"
proof (induction depth)
  case 0
  show ?case using example_assets_run by (simp del: replicate_folder.simps)
next
  case (Suc depth)
  then show ?case by (rule replicate_folder_mono)
qed

subsection \<open>The calls of one level\<close>





subsection \<open>Failures\<close>

text \<open>
  C7. When the store answers the fetch of a file entry with a status other than 200,
  \<^verbatim>\<open>get_file_content\<close> returns the pair of empty strings, the pass of the loop body
  over the entry calls \<^verbatim>\<open>create_file\<close> not once, and it leaves the total counter one
  higher and the success counter as it was.
\<close>

theorem fetch_failure_skips_file:
  assumes "item_type item = ''file''"
    and "requests_get rq (base_url self @ ''/contents/'' @ item_path item) (headers self) w
           = (response, w1)"
    and "status_code response \<noteq> 200"
    and "evs = [Print (Processing (item_path item)),
                Get_file_content (item_path item) (Inr ('''', '''')),
                Print (Error_fetching_file (item_path item) (status_code response))]"
  shows "get_file_content self rq (item_path item) w = (Inr ('''', ''''), tl evs, w1)
    \<and> loop_body recurse self rq source_folder target_folder item (success_count, total_count) w
           = Some (Inr (success_count, total_count + 1), evs, w1)
    \<and> count_where is_create evs = 0"
proof -
  have g: "get_file_content self rq (item_path item) w = (Inr ('''', ''''), tl evs, w1)"
    using assms(2,3) by (simp add: get_file_content_def assms(4))
  have "loop_body recurse self rq source_folder target_folder item (success_count, total_count) w
           = Some (Inr (success_count, total_count + 1), evs, w1)"
    using process_item_file_empty [OF assms(1) g]
    by (simp add: loop_body_process_item assms(4))
  with g show ?thesis
    by (simp add: assms(4))
qed

theorem fetch_failure_skips_file_witness:
  "requests_get example_requests
     (base_url example_self @ ''/contents/'' @ ''reports/gone.csv'') (headers example_self) []
     = (answer 404 [] (Inr ''''), [])
   \<and> get_file_content example_self example_requests ''reports/gone.csv'' []
     = (Inr ('''', ''''),
        [Get_file_content ''reports/gone.csv'' (Inr ('''', '''')),
         Print (Error_fetching_file ''reports/gone.csv'' 404)], [])
   \<and> loop_body (replicate_folder 1 example_self example_requests) example_self
       example_requests ''reports'' ''Oct/reports''
       \<lparr>item_name = ''gone.csv'', item_path = ''reports/gone.csv'', item_type = ''file''\<rparr>
       (1, 3) []
     = Some (Inr (1, 4),
             [Print (Processing ''reports/gone.csv''),
              Get_file_content ''reports/gone.csv'' (Inr ('''', '''')),
              Print (Error_fetching_file ''reports/gone.csv'' 404)], [])"
proof -
  have get: "requests_get example_requests
     (base_url example_self @ ''/contents/'' @ ''reports/gone.csv'') (headers example_self) []
     = (answer 404 [] (Inr ''''), [])"
    by (simp add: example_requests_def example_self_def example_get_def)
  have code: "status_code (answer 404 [] (Inr '''')) \<noteq> 200"
    by (simp add: answer_def)
  show ?thesis
    using fetch_failure_skips_file
        [where item = "\<lparr>item_name = ''gone.csv'', item_path = ''reports/gone.csv'',
                         item_type = ''file''\<rparr>"
           and rq = example_requests and self = example_self and w = "[]"
           and recurse = "replicate_folder 1 example_self example_requests"
           and source_folder = "''reports''" and target_folder = "''Oct/reports''"
           and success_count = 1 and total_count = 3,
         OF _ _ code refl] get
    by (simp add: answer_def)
qed

text \<open>
  C8. When the listing of the source folder comes back empty, the invocation returns, for
  every bound on the depth: it prints that no contents were found, as its last line, and
  among its events there is no call of \<^verbatim>\<open>create_file\<close>, no fetch and no recursive
  invocation. The result \<open>Some (Inr ())\<close> is a return: no exception leaves the
  invocation.
\<close>

theorem empty_listing_stops:
  assumes "get_folder_contents self rq source_folder w = ([], evs0, w0)"
    and "evs = Print (Starting_replication source_folder target_folder) # evs0
                 @ [Print (No_contents_found source_folder)]"
  shows "replicate_folder (Suc depth) self rq source_folder target_folder w
           = Some (Inr (), evs, w0)
    \<and> last evs = Print (No_contents_found source_folder)
    \<and> count_where is_create evs = 0
    \<and> count_where is_fetch evs = 0
    \<and> count_where is_recursion evs = 0"
proof -
  obtain prints where
    e0: "evs0 = Get_folder_contents source_folder [] # prints"
    and p: "list_all is_print prints"
    using get_folder_contents_events [OF assms(1)] by blast
  show ?thesis
    using assms(1) by (simp add: assms(2) e0 count_prints [OF p])
qed

theorem empty_listing_stops_witness:
  "get_folder_contents example_self example_requests ''nothing'' []
     = ([], [Get_folder_contents ''nothing'' [], Print (Error_fetching ''nothing'' 404),
             Print (Path_not_found ''nothing'')], [])
   \<and> replicate_folder (Suc 0) example_self example_requests ''nothing'' ''Oct/nothing'' []
     = Some (Inr (),
             [Print (Starting_replication ''nothing'' ''Oct/nothing''),
              Get_folder_contents ''nothing'' [], Print (Error_fetching ''nothing'' 404),
              Print (Path_not_found ''nothing''),
              Print (No_contents_found ''nothing'')], [])"
proof -
  have listing: "get_folder_contents example_self example_requests ''nothing'' []
     = ([], [Get_folder_contents ''nothing'' [], Print (Error_fetching ''nothing'' 404),
             Print (Path_not_found ''nothing'')], [])"
    by (simp add: get_folder_contents_def example_requests_def example_self_def
        example_get_def answer_def)
  show ?thesis
    using empty_listing_stops
        [where target_folder = "''Oct/nothing''" and depth = 0, OF listing refl] listing
    by simp
qed

text \<open>
  C9. When the store answers the PUT for a file entry with a status other than 201,
  \<^verbatim>\<open>create_file\<close> prints the failure and returns \<^verbatim>\<open>False\<close>; the pass of the loop
  body leaves the total counter one higher and the success counter as it was; and the loop
  goes on with the entries that follow, from these counters and the store the PUT left.
\<close>

theorem create_failure_continues:
  assumes "item_type item = ''file''"
    and "get_file_content self rq (item_path item) w = (Inr (content, sha), evs1, w1)"
    and "content \<noteq> []"
    and "target_path = py_replace (item_path item) source_folder target_folder"
    and "requests_put rq (base_url self @ ''/contents/'' @ target_path)
           (commit_message source_folder target_folder, update_content_references content)
           (headers self) w1 = (response, w2)"
    and "status_code response \<noteq> 201"
    and "evs2 = [Create_file target_path (update_content_references content)
                   (commit_message source_folder target_folder) False,
                 Print (Error_creating target_path (status_code response))]"
  shows "create_file self rq target_path (update_content_references content)
           (commit_message source_folder target_folder) w1 = (False, evs2, w2)
    \<and> loop_body recurse self rq source_folder target_folder item (success_count, total_count) w
         = Some (Inr (success_count, total_count + 1),
                 Print (Processing (item_path item)) # evs1 @ evs2, w2)
    \<and> for_item_in recurse self rq source_folder target_folder (item # contents)
           (success_count, total_count) w
         = (case for_item_in recurse self rq source_folder target_folder contents
                   (success_count, total_count + 1) w2 of
              None \<Rightarrow> None
            | Some (result, evs3, w3) \<Rightarrow>
                Some (result, (Print (Processing (item_path item)) # evs1 @ evs2) @ evs3, w3))"
proof -
  have k: "create_file self rq (py_replace (item_path item) source_folder target_folder)
           (update_content_references content)
           (commit_message source_folder target_folder) w1 = (False, evs2, w2)"
    using assms(5,6) by (simp add: create_file_def assms(4,7))
  have b: "loop_body recurse self rq source_folder target_folder item (success_count, total_count) w
         = Some (Inr (success_count, total_count + 1),
                 Print (Processing (item_path item)) # evs1 @ evs2, w2)"
    using process_item_file_create [OF assms(1,2,3) k]
    by (simp add: loop_body_process_item)
  show ?thesis
    using k b by (simp add: assms(4) split: option.splits)
qed

theorem create_failure_continues_witness:
  "requests_put example_requests
     ''https://api.github.com/repos/o/r/contents/Oct/reports/totals.csv''
     (''chore: replicate reports structure for Oct/reports'', ''Oct totals'')
     (headers example_self)
     [''https://api.github.com/repos/o/r/contents/Oct/reports/totals.csv'']
     = (answer 422 [] (Inr ''''),
        [''https://api.github.com/repos/o/r/contents/Oct/reports/totals.csv''])
   \<and> for_item_in (replicate_folder 1 example_self example_requests) example_self
       example_requests ''reports'' ''Oct/reports''
       [\<lparr>item_name = ''totals.csv'', item_path = ''reports/totals.csv'', item_type = ''file''\<rparr>,
        \<lparr>item_name = ''empty.txt'', item_path = ''reports/empty.txt'', item_type = ''file''\<rparr>]
       (0, 0) [''https://api.github.com/repos/o/r/contents/Oct/reports/totals.csv'']
     = Some (Inr (0, 2),
             [Print (Processing ''reports/totals.csv''),
              Get_file_content ''reports/totals.csv'' (Inr (''Oct totals'', '''')),
              Create_file ''Oct/reports/totals.csv'' ''Oct totals''
                ''chore: replicate reports structure for Oct/reports'' False,
              Print (Error_creating ''Oct/reports/totals.csv'' 422),
              Print (Processing ''reports/empty.txt''),
              Get_file_content ''reports/empty.txt'' (Inr ('''', ''''))],
             [''https://api.github.com/repos/o/r/contents/Oct/reports/totals.csv''])"
proof -
  let ?w = "[''https://api.github.com/repos/o/r/contents/Oct/reports/totals.csv'']"
  let ?item = "\<lparr>item_name = ''totals.csv'', item_path = ''reports/totals.csv'',
                 item_type = ''file''\<rparr>"
  have fetch: "get_file_content example_self example_requests (item_path ?item) ?w
      = (Inr (''Oct totals'', ''''),
         [Get_file_content ''reports/totals.csv'' (Inr (''Oct totals'', ''''))], ?w)"
    by (simp add: get_file_content_def example_requests_def example_self_def
        example_get_def answer_def)
  have path: "''Oct/reports/totals.csv'' = py_replace (item_path ?item) ''reports'' ''Oct/reports''"
    by (simp add: py_replace_def)
  have put: "requests_put example_requests
      (base_url example_self @ ''/contents/'' @ ''Oct/reports/totals.csv'')
      (commit_message ''reports'' ''Oct/reports'', update_content_references ''Oct totals'')
      (headers example_self) ?w = (answer 422 [] (Inr ''''), ?w)"
    by (simp add: example_requests_def example_self_def example_put_def)
  have code: "status_code (answer 422 [] (Inr '''')) \<noteq> 201"
    by (simp add: answer_def)
  have rest: "for_item_in (replicate_folder 1 example_self example_requests) example_self
       example_requests ''reports'' ''Oct/reports''
       [\<lparr>item_name = ''empty.txt'', item_path = ''reports/empty.txt'', item_type = ''file''\<rparr>]
       (0, 0 + 1) ?w
     = Some (Inr (0, 2),
             [Print (Processing ''reports/empty.txt''),
              Get_file_content ''reports/empty.txt'' (Inr ('''', ''''))], ?w)"
    by code_simp
  show ?thesis
    using create_failure_continues
        [where recurse = "replicate_folder 1 example_self example_requests"
           and success_count = 0 and total_count = 0
           and contents = "[\<lparr>item_name = ''empty.txt'', item_path = ''reports/empty.txt'',
                              item_type = ''file''\<rparr>]",
         OF _ fetch _ path put code refl]
      put rest
    by (simp add: update_content_references_def apply_replacements_same [OF replacements_same]
        commit_message_def answer_def example_self_def)
qed

text \<open>
  C10. The pass over an entry of type \<^verbatim>\<open>dir\<close> whose recursive invocation returns
  leaves both counters of the caller as the branch found them, whatever the invocation did:
  the invocation hands back nothing that enters them. (The total counter was incremented
  for the entry before the branch, as for every entry.)
\<close>

theorem recursion_leaves_counters:
  assumes "item_type item = ''dir''"
    and "recurse (item_path item) (py_replace (item_path item) source_folder target_folder) w
           = Some (Inr (), sub, w1)"
  shows "process_item recurse self rq source_folder target_folder item
           (success_count, total_count) w
         = Some (Inr (success_count, total_count),
                 [Print (Processing_directory (item_path item)),
                  Replicate_folder (item_path item)
                    (py_replace (item_path item) source_folder target_folder) sub], w1)"
  using assms by (simp add: process_item_dir_return)

theorem recursion_leaves_counters_witness:
  "replicate_folder 1 example_self example_requests ''reports/2025'' ''Oct/reports/2025'' []
     = Some (Inr (), example_sub_events,
             [''https://api.github.com/repos/o/r/contents/Oct/reports/2025/q3.csv''])
   \<and> last example_sub_events = Print (Completed 1 1)
   \<and> process_item (replicate_folder 1 example_self example_requests) example_self
       example_requests ''reports'' ''Oct/reports''
       \<lparr>item_name = ''2025'', item_path = ''reports/2025'', item_type = ''dir''\<rparr> (1, 3) []
     = Some (Inr (1, 3),
             [Print (Processing_directory ''reports/2025''),
              Replicate_folder ''reports/2025'' ''Oct/reports/2025'' example_sub_events],
             [''https://api.github.com/repos/o/r/contents/Oct/reports/2025/q3.csv''])"
proof -
  let ?item = "\<lparr>item_name = ''2025'', item_path = ''reports/2025'', item_type = ''dir''\<rparr>"
  have path: "py_replace ''reports/2025'' ''reports'' ''Oct/reports'' = ''Oct/reports/2025''"
    by (simp add: py_replace_def)
  have sub: "replicate_folder 1 example_self example_requests (item_path ?item)
      (py_replace (item_path ?item) ''reports'' ''Oct/reports'') []
     = Some (Inr (), example_sub_events,
             [''https://api.github.com/repos/o/r/contents/Oct/reports/2025/q3.csv''])"
    using example_sub_run by (simp add: path del: replicate_folder.simps)
  show ?thesis
    using recursion_leaves_counters
        [where self = example_self and rq = example_requests and item = ?item
           and recurse = "replicate_folder 1 example_self example_requests"
           and source_folder = "''reports''" and target_folder = "''Oct/reports''"
           and w = "[]" and success_count = 1 and total_count = 3, OF _ sub]
      example_sub_run
    by (simp add: path example_sub_events_def del: replicate_folder.simps)
qed

end
